theory Spec2Isabelle
  imports Main
begin

section \<open>Characters and character classes\<close>

text \<open>
  A Python \<open>str\<close> is a sequence of code points. The model uses HOL strings, so a
  character of the model is a code point below 256. On that range \<open>\s\<close> of a
  \<open>str\<close> pattern is \<open>str.isspace\<close> (tab, LF, VT, FF, CR, the four separators
  0x1C..0x1F, space, NEL 0x85 and NBSP 0xA0) and \<open>\d\<close> is an ASCII digit.
\<close>

definition is_space :: "char \<Rightarrow> bool" where
  "is_space c \<longleftrightarrow> c \<in> set [CHR 0x09, CHR 0x0A, CHR 0x0B, CHR 0x0C, CHR 0x0D,
     CHR 0x1C, CHR 0x1D, CHR 0x1E, CHR 0x1F, CHR 0x20, CHR 0x85, CHR 0xA0]"

definition is_digit :: "char \<Rightarrow> bool" where
  "is_digit c \<longleftrightarrow> c \<in> set ''0123456789''"

datatype cclass =
    Space          \<comment> \<open>\<open>\s\<close>\<close>
  | NonSpace       \<comment> \<open>\<open>\S\<close>\<close>
  | Digit          \<comment> \<open>\<open>\d\<close>\<close>
  | Lit char       \<comment> \<open>a literal character\<close>
  | NotChar char   \<comment> \<open>a negated set of one character, \<open>[^c]\<close>\<close>

fun in_class :: "cclass \<Rightarrow> char \<Rightarrow> bool" where
  "in_class Space c = is_space c"
| "in_class NonSpace c = (\<not> is_space c)"
| "in_class Digit c = is_digit c"
| "in_class (Lit a) c = (c = a)"
| "in_class (NotChar a) c = (c \<noteq> a)"

section \<open>Patterns and the backtracking matcher\<close>

text \<open>
  \<open>LOG_RE\<close> is a plain sequence: anchors, named groups, and one-character classes
  under a greedy quantifier. A pattern is the list of its items; a named group is a pair
  of marks around its body, as in the compiled form of \<open>re\<close>. \<open>Rep c lo hi\<close> is the
  class \<open>c\<close> repeated at least \<open>lo\<close> and at most \<open>hi\<close> times (\<open>None\<close>: no bound).
\<close>

datatype item =
    Bol                              \<comment> \<open>\<open>^\<close>\<close>
  | Eol                              \<comment> \<open>\<open>$\<close>\<close>
  | Rep cclass nat "nat option"
  | MarkStart string
  | MarkEnd string

type_synonym pattern = "item list"

abbreviation single :: "cclass \<Rightarrow> item" where "single c \<equiv> Rep c 1 (Some 1)"
abbreviation plus1 :: "cclass \<Rightarrow> item" where "plus1 c \<equiv> Rep c 1 None"
abbreviation star :: "cclass \<Rightarrow> item" where "star c \<equiv> Rep c 0 None"
abbreviation exactly :: "nat \<Rightarrow> cclass \<Rightarrow> item" where "exactly n c \<equiv> Rep c n (Some n)"

definition grp :: "string \<Rightarrow> pattern \<Rightarrow> pattern" where
  "grp n body = MarkStart n # body @ [MarkEnd n]"

record marks =
  starts :: "(string \<times> nat) list"
  ends :: "(string \<times> nat) list"

definition no_marks :: marks where
  "no_marks = \<lparr>starts = [], ends = []\<rparr>"

definition dec :: "nat option \<Rightarrow> nat option" where
  "dec hi = map_option (\<lambda>h. h - 1) hi"

text \<open>
  \<open>match_items p i s ms\<close> matches the pattern \<open>p\<close> at position \<open>i\<close> of the subject,
  \<open>s\<close> being the subject from \<open>i\<close> on. A repetition first takes one more character
  (greedy) and gives it back when the rest of the pattern fails; the first success in
  that order is the result, as in \<open>re\<close>. \<open>$\<close> holds at the end of the subject and
  before a newline that ends it.
\<close>

fun match_items :: "pattern \<Rightarrow> nat \<Rightarrow> string \<Rightarrow> marks \<Rightarrow> marks option" where
  "match_items [] i s ms = Some ms"
| "match_items (Bol # r) i s ms = (if i = 0 then match_items r i s ms else None)"
| "match_items (Eol # r) i s ms =
     (if s = [] \<or> s = [CHR 0x0A] then match_items r i s ms else None)"
| "match_items (MarkStart n # r) i s ms = match_items r i s (ms\<lparr>starts := (n, i) # starts ms\<rparr>)"
| "match_items (MarkEnd n # r) i s ms = match_items r i s (ms\<lparr>ends := (n, i) # ends ms\<rparr>)"
| "match_items (Rep c lo hi # r) i [] ms = (if lo = 0 then match_items r i [] ms else None)"
| "match_items (Rep c lo hi # r) i (x # xs) ms =
     (case (if hi \<noteq> Some 0 \<and> in_class c x
            then match_items (Rep c (lo - 1) (dec hi) # r) (i + 1) xs ms else None) of
        Some m \<Rightarrow> Some m
      | None \<Rightarrow> if lo = 0 then match_items r i (x # xs) ms else None)"

text \<open>The pattern of the source, one line of the definition per line of the source.\<close>

definition LOG_RE :: pattern where
  \<open>LOG_RE =
     [Bol] @ grp ''remote_addr'' [plus1 NonSpace] @ [plus1 Space, plus1 NonSpace, plus1 Space]
       @ grp ''remote_user'' [plus1 NonSpace] @ [plus1 Space] @
     [single (Lit CHR ''['')] @ grp ''time_local'' [plus1 (NotChar CHR '']'')] @ [single (Lit CHR '']''), plus1 Space] @
     [single (Lit CHR ''"'')] @ grp ''request'' [star (NotChar CHR ''"'')] @ [single (Lit CHR ''"''), plus1 Space] @
     grp ''status'' [exactly 3 Digit] @ [plus1 Space] @
     grp ''body_bytes_sent'' [plus1 NonSpace] @ [plus1 Space] @
     [single (Lit CHR ''"'')] @ grp ''http_referer'' [star (NotChar CHR ''"'')] @ [single (Lit CHR ''"''), plus1 Space] @
     [single (Lit CHR ''"'')] @ grp ''http_user_agent'' [star (NotChar CHR ''"'')] @ [single (Lit CHR ''"''), plus1 Space] @
     grp ''request_length'' [plus1 NonSpace] @ [plus1 Space] @
     grp ''request_time'' [plus1 NonSpace] @ [plus1 Space] @
     grp ''upstream_name'' [single (Lit CHR ''[''), star (NotChar CHR '']''), single (Lit CHR '']'')] @ [plus1 Space] @
     grp ''upstream_other'' [single (Lit CHR ''[''), star (NotChar CHR '']''), single (Lit CHR '']'')] @ [plus1 Space] @
     grp ''upstream_addr'' [plus1 NonSpace] @ [plus1 Space] @
     grp ''upstream_response_length'' [plus1 NonSpace] @ [plus1 Space] @
     grp ''upstream_response_time'' [plus1 NonSpace] @ [plus1 Space] @
     grp ''upstream_status'' [plus1 NonSpace] @ [plus1 Space] @
     grp ''request_id'' [plus1 NonSpace] @ [star Space, Eol]\<close>

section \<open>Exceptions\<close>

text \<open>
  The exceptions that the model has: \<open>IndexError\<close> for a group that a match object
  does not know, and \<open>IndentationError\<close>, with which Python refuses a file whose layout
  it cannot read. The three faults of a layout are an indented statement where no block
  was opened (with the line of the statement), a block that was opened and has no
  indented statement (with the line that opened it), and a statement that goes back to a
  column at which no enclosing block started (with the line of the statement).
\<close>

datatype layout_fault =
    UnexpectedIndent nat
  | ExpectedBlockAfter nat
  | UnindentMismatch nat

datatype error =
    IndexError
  | IndentationError layout_fault

section \<open>Match objects\<close>

record match_obj =
  subject :: string
  found :: marks

text \<open>\<open>pattern.match(s)\<close>: a match that starts at position 0, or \<open>None\<close>.\<close>

definition re_match :: "pattern \<Rightarrow> string \<Rightarrow> match_obj option" where
  "re_match p s = map_option (\<lambda>ms. \<lparr>subject = s, found = ms\<rparr>) (match_items p 0 s no_marks)"

text \<open>
  \<open>m.group(name)\<close>: the slice of the subject between the marks of the group; a name
  with no marks raises \<open>IndexError\<close>. (No group of \<open>LOG_RE\<close> is optional, so
  a group of the pattern that took no part in a match, for which \<open>re\<close> returns
  \<open>None\<close>, does not occur.)
\<close>

definition group :: "match_obj \<Rightarrow> string \<Rightarrow> error + string" where
  "group m n =
     (case (map_of (starts (found m)) n, map_of (ends (found m)) n) of
        (Some a, Some b) \<Rightarrow> Inr (take (b - a) (drop a (subject m)))
      | _ \<Rightarrow> Inl IndexError)"

text \<open>The names of the groups of \<open>LOG_RE\<close>, in the order of the pattern.\<close>

definition GROUP_NAMES :: "string list" where
  "GROUP_NAMES =
     [''remote_addr'',
      ''remote_user'',
      ''time_local'',
      ''request'',
      ''status'',
      ''body_bytes_sent'',
      ''http_referer'',
      ''http_user_agent'',
      ''request_length'',
      ''request_time'',
      ''upstream_name'',
      ''upstream_other'',
      ''upstream_addr'',
      ''upstream_response_length'',
      ''upstream_response_time'',
      ''upstream_status'',
      ''request_id'']"

section \<open>Splitting the request\<close>

text \<open>\<open>s.split(sep, maxsplit)\<close> for a separator of one character.\<close>

fun str_split :: "char \<Rightarrow> nat \<Rightarrow> string \<Rightarrow> string list" where
  "str_split sep n s =
     (if n = 0 \<or> sep \<notin> set s then [s]
      else takeWhile (\<lambda>c. c \<noteq> sep) s # str_split sep (n - 1) (tl (dropWhile (\<lambda>c. c \<noteq> sep) s)))"

declare str_split.simps [simp del]

text \<open>
  The two statements of lines 92 and 93: the request is split at its first two spaces
  and padded to three parts, which are the method, the path and the protocol.
\<close>

definition split_request :: "string \<Rightarrow> string \<times> string \<times> string" where
  "split_request request =
     (let parts = str_split CHR '' '' 2 request;
          padded = take 3 (parts @ ['''', '''', ''''])
      in (padded ! 0, padded ! 1, padded ! 2))"

section \<open>The layout of the file\<close>

text \<open>
  Python reads a file as a sequence of logical lines. A blank line and a line that holds
  only a comment are no logical line; a line that ends in a backslash, and a bracket
  still open at the end of a line, continue the logical line on the next line. What the
  layout of a file depends on is, for each logical line, the column of its first
  character and whether it is the header of a compound statement, which ends in a colon
  and opens a block.

  \<open>STORED_LINES\<close> are the logical lines of \<open>parse_nginx_log.py\<close> as it is stored:
  the number of the line on which each starts, its column, and whether it opens a block.
  The pattern is the logical line 11 (to line 28); the \<open>with\<close> statement is the
  logical line 57 (to line 58); the two \<open>writer.writerow\<close> statements are the logical
  lines 61 (to line 81) and 95 (to line 115), and both start at column 0.
\<close>

type_synonym src_line = "nat \<times> nat \<times> bool"

definition STORED_LINES :: "src_line list" where
  "STORED_LINES =
     [(2, 0, False),      \<comment> \<open>\<open>import argparse\<close>\<close>
      (3, 0, False),      \<comment> \<open>\<open>import csv\<close>\<close>
      (4, 0, False),      \<comment> \<open>\<open>import os\<close>\<close>
      (5, 0, False),      \<comment> \<open>\<open>import re\<close>\<close>
      (6, 0, False),      \<comment> \<open>\<open>import subprocess\<close>\<close>
      (7, 0, False),      \<comment> \<open>\<open>from datetime import datetime\<close>\<close>
      (11, 0, False),     \<comment> \<open>\<open>LOG_RE = re.compile(\<close> ... \<open>)\<close>\<close>
      (31, 0, True),      \<comment> \<open>\<open>def parse_args():\<close>\<close>
      (32, 4, False),     \<comment> \<open>\<open>p = argparse.ArgumentParser(\<close> ... \<open>)\<close>\<close>
      (33, 4, False),     \<comment> \<open>\<open>p.add_argument(\<close> ... \<open>)\<close>\<close>
      (34, 4, False),
      (35, 4, False),
      (36, 4, False),
      (37, 4, False),
      (38, 4, False),     \<comment> \<open>\<open>return p.parse_args()\<close>\<close>
      (40, 0, True),      \<comment> \<open>\<open>def ensure_parent_dir(path: str):\<close>\<close>
      (41, 4, False),     \<comment> \<open>\<open>parent = \<close> ...\<close>
      (42, 4, True),      \<comment> \<open>\<open>if parent and not os.path.exists(parent):\<close>\<close>
      (43, 8, False),     \<comment> \<open>\<open>os.makedirs(parent, exist_ok=True)\<close>\<close>
      (45, 0, True),      \<comment> \<open>\<open>def git(cmd, repo):\<close>\<close>
      (46, 4, False),     \<comment> \<open>\<open>return subprocess.run(\<close> ... \<open>)\<close>\<close>
      (48, 0, True),      \<comment> \<open>\<open>def main():\<close>\<close>
      (49, 4, False),     \<comment> \<open>\<open>args = parse_args()\<close>\<close>
      (51, 4, True),      \<comment> \<open>\<open>if not os.path.isfile(args.log):\<close>\<close>
      (52, 8, False),     \<comment> \<open>\<open>raise SystemExit(\<close> ... \<open>)\<close>\<close>
      (54, 4, False),     \<comment> \<open>\<open>ensure_parent_dir(args.out)\<close>\<close>
      (56, 4, False),     \<comment> \<open>\<open>rows_written = 0\<close>\<close>
      (57, 4, True),      \<comment> \<open>\<open>with open(\<close> ... \<open>) as f_in, open(\<close> ... \<open>) as f_out:\<close>\<close>
      (60, 8, False),     \<comment> \<open>\<open>writer = csv.writer(f_out)\<close>\<close>
      (61, 0, False),     \<comment> \<open>\<open>writer.writerow([\<close> the 19 column names \<open>])\<close>\<close>
      (83, 8, True),      \<comment> \<open>\<open>for line in f_in:\<close>\<close>
      (84, 12, False),    \<comment> \<open>\<open>line = line.rstrip(\<close> ... \<open>)\<close>\<close>
      (85, 12, False),    \<comment> \<open>\<open>m = LOG_RE.match(line)\<close>\<close>
      (86, 12, True),     \<comment> \<open>\<open>if not m:\<close>\<close>
      (88, 16, False),    \<comment> \<open>\<open>continue\<close>\<close>
      (90, 12, False),    \<comment> \<open>\<open>request = m.group(\<close> ... \<open>)\<close>\<close>
      (92, 12, False),    \<comment> \<open>\<open>parts = request.split(\<close> ... \<open>, 2)\<close>\<close>
      (93, 12, False),    \<comment> \<open>\<open>method, path, protocol = \<close> ...\<close>
      (95, 0, False),     \<comment> \<open>\<open>writer.writerow([\<close> the 19 values \<open>])\<close>\<close>
      (117, 12, False),   \<comment> \<open>\<open>rows_written += 1\<close>\<close>
      (119, 4, False),    \<comment> \<open>\<open>print(\<close> ... \<open>)\<close>\<close>
      (121, 4, True),     \<comment> \<open>\<open>if args.commit:\<close>\<close>
      (123, 8, False),    \<comment> \<open>\<open>git([\<close> ... \<open>], args.repo)\<close>\<close>
      (126, 8, False),    \<comment> \<open>\<open>git([\<close> ... \<open>], args.repo)\<close>\<close>
      (128, 8, False),    \<comment> \<open>\<open>msg = args.message.strip()\<close>\<close>
      (129, 8, True),     \<comment> \<open>\<open>if not msg:\<close>\<close>
      (130, 12, False),   \<comment> \<open>\<open>now = datetime.now().strftime(\<close> ... \<open>)\<close>\<close>
      (131, 12, False),   \<comment> \<open>\<open>msg = \<close> ...\<close>
      (134, 8, False),    \<comment> \<open>\<open>diff = subprocess.run(\<close> ... \<open>)\<close>\<close>
      (137, 8, True),     \<comment> \<open>\<open>if diff.returncode == 0:\<close>\<close>
      (138, 12, False),   \<comment> \<open>\<open>print(\<close> ... \<open>)\<close>\<close>
      (139, 8, True),     \<comment> \<open>\<open>else:\<close>\<close>
      (140, 12, False),   \<comment> \<open>\<open>git([\<close> ... \<open>], args.repo)\<close>\<close>
      (141, 12, False),   \<comment> \<open>\<open>print(\<close> ... \<open>)\<close>\<close>
      (143, 0, True),     \<comment> \<open>\<open>if __name__ == \<close> ... \<open>:\<close>\<close>
      (144, 4, False)]    \<comment> \<open>\<open>main()\<close>\<close>"

text \<open>
  The check that Python makes of the layout before it runs anything. \<open>here\<close> is the
  column of the block that is open, \<open>outer\<close> the columns of the blocks around it, the
  innermost first, and \<open>opened\<close> the line of the header when the line before opened a
  block. After a header the next line must be further to the right, and starts the new
  block. Otherwise a line further to the right is an unexpected indent; a line at the
  column of the open block goes on with it; a line further to the left closes blocks, and
  must be at the column of one of the blocks around.
\<close>

fun check_layout :: "nat \<Rightarrow> nat list \<Rightarrow> nat option \<Rightarrow> src_line list \<Rightarrow> layout_fault option" where
  "check_layout here outer opened [] =
     (case opened of Some h \<Rightarrow> Some (ExpectedBlockAfter h) | None \<Rightarrow> None)"
| "check_layout here outer opened ((n, col, opens) # rest) =
     (let nxt = (if opens then Some n else None) in
      case opened of
        Some h \<Rightarrow>
          if here < col then check_layout col (here # outer) nxt rest
          else Some (ExpectedBlockAfter h)
      | None \<Rightarrow>
          if here < col then Some (UnexpectedIndent n)
          else if col = here then check_layout here outer nxt rest
          else (case dropWhile (\<lambda>k. col < k) outer of
                  [] \<Rightarrow> Some (UnindentMismatch n)
                | k # ks \<Rightarrow>
                    if k = col then check_layout k ks nxt rest
                    else Some (UnindentMismatch n)))"

text \<open>A layout with the statement of line \<open>n\<close> moved to column \<open>c\<close>.\<close>

definition at_column :: "nat \<Rightarrow> nat \<Rightarrow> src_line list \<Rightarrow> src_line list" where
  "at_column n c src = map (\<lambda>(m, k, opens). if m = n then (m, c, opens) else (m, k, opens)) src"

section \<open>Running the file\<close>

record args =
  log :: string
  out :: string
  repo :: string
  commit :: bool
  message :: string

text \<open>What \<open>print\<close> writes, as values: the texts hold characters outside the model.\<close>

datatype notice =
    CsvSaved string nat      \<comment> \<open>the output path and the row count\<close>
  | NoChanges
  | Committed

text \<open>
  The world outside the program: the text files it can read, the CSV files that have
  been written (as rows), and whatever else the external commands see and change, the
  repository among it. A run can change the world, write to the console and run
  commands.
\<close>

record 'e world =
  texts :: "string \<rightharpoonup> string"
  csvs :: "string \<rightharpoonup> string list list"
  ext :: 'e

record 'e state =
  world :: "'e world"
  console :: "notice list"
  invoked :: "string list list"   \<comment> \<open>the commands run so far, in order\<close>

text \<open>
  \<open>python file.py\<close> with its arguments: the whole file is compiled first, and a file
  that is refused runs none of its statements, so that the run ends with the exception
  and the world as it was. \<open>body\<close> is what the statements of a file that is accepted
  do, whatever that is.
\<close>

definition run_script ::
  "src_line list \<Rightarrow> (args \<Rightarrow> 'e state \<Rightarrow> error option \<times> 'e state) \<Rightarrow> args \<Rightarrow> 'e state \<Rightarrow> error option \<times> 'e state" where
  "run_script src body a st =
     (case check_layout 0 [] None src of
        Some fault \<Rightarrow> (Some (IndentationError fault), st)
      | None \<Rightarrow> body a st)"

section \<open>The fields after the user agent\<close>

text \<open>
  The text of a matched line after the closing quote of the user agent
  (\<open>line[m.end("http_user_agent") + 1:]\<close>), and its whitespace-delimited fields
  (\<open>s.split()\<close>).
\<close>

definition after_user_agent :: "match_obj \<Rightarrow> string" where
  "after_user_agent mo =
     (case map_of (ends (found mo)) ''http_user_agent'' of
        None \<Rightarrow> []
      | Some e \<Rightarrow> drop (e + 1) (subject mo))"

fun ws_from :: "string \<Rightarrow> string \<Rightarrow> string list" where
  "ws_from cur [] = (if cur = [] then [] else [cur])"
| "ws_from cur (c # cs) =
     (if is_space c then (if cur = [] then ws_from [] cs else cur # ws_from [] cs)
      else ws_from (cur @ [c]) cs)"

definition ws_fields :: "string \<Rightarrow> string list" where
  "ws_fields s = ws_from [] s"

definition tokenlike :: "string \<Rightarrow> bool" where
  "tokenlike f \<longleftrightarrow> f \<noteq> [] \<and> list_all (\<lambda>c. \<not> is_space c) f"

section \<open>The grammar of a line, in words\<close>

text \<open>
  The kinds of field of a log line: a run of non-whitespace characters; a bracketed
  timestamp, not empty between the brackets; a quoted text; three digits; a bracketed
  upstream field, possibly empty between the brackets.
\<close>

datatype kind = Token | Stamp | Quoted | Status | Upstream

fun field_ok :: "kind \<Rightarrow> string \<Rightarrow> bool" where
  "field_ok Token f \<longleftrightarrow> f \<noteq> [] \<and> list_all (\<lambda>c. \<not> is_space c) f"
| "field_ok Stamp f \<longleftrightarrow> (\<exists>b. f = CHR ''['' # b @ [CHR '']''] \<and> b \<noteq> [] \<and> list_all (\<lambda>c. c \<noteq> CHR '']'') b)"
| "field_ok Quoted f \<longleftrightarrow> (\<exists>b. f = CHR 0x22 # b @ [CHR 0x22] \<and> list_all (\<lambda>c. c \<noteq> CHR 0x22) b)"
| "field_ok Status f \<longleftrightarrow> length f = 3 \<and> list_all is_digit f"
| "field_ok Upstream f \<longleftrightarrow> (\<exists>b. f = CHR ''['' # b @ [CHR '']''] \<and> list_all (\<lambda>c. c \<noteq> CHR '']'') b)"

text \<open>
  A field may be captured under a name. The fields of a line up to the request id, each
  followed by a run of whitespace, in the order of the pattern; the second one is the
  token between the address and the user, which the pattern does not capture.
\<close>

type_synonym field = "kind \<times> string option"

definition LINE_FIELDS :: "field list" where
  "LINE_FIELDS =
     [(Token, Some ''remote_addr''),
      (Token, None),
      (Token, Some ''remote_user''),
      (Stamp, Some ''time_local''),
      (Quoted, Some ''request''),
      (Status, Some ''status''),
      (Token, Some ''body_bytes_sent''),
      (Quoted, Some ''http_referer''),
      (Quoted, Some ''http_user_agent''),
      (Token, Some ''request_length''),
      (Token, Some ''request_time''),
      (Upstream, Some ''upstream_name''),
      (Upstream, Some ''upstream_other''),
      (Token, Some ''upstream_addr''),
      (Token, Some ''upstream_response_length''),
      (Token, Some ''upstream_response_time''),
      (Token, Some ''upstream_status'')]"

text \<open>
  A segment is a field with the whitespace after it. A line is in the grammar when it is
  the segments of \<open>LINE_FIELDS\<close> in order, then the request id, then whitespace or
  nothing.
\<close>

fun seg_ok :: "kind \<Rightarrow> string \<times> string \<Rightarrow> bool" where
  "seg_ok k (f, w) \<longleftrightarrow> field_ok k f \<and> w \<noteq> [] \<and> list_all is_space w"

definition flat :: "(string \<times> string) list \<Rightarrow> string" where
  "flat segs = concat (map (\<lambda>(f, w). f @ w) segs)"


section \<open>A declarative reading of patterns\<close>

text \<open>
  \<open>parses p i s ms m\<close>: the pattern can consume a prefix of \<open>s\<close> in some way that
  turns the marks \<open>ms\<close> into \<open>m\<close>. The matcher is compared with it below.
\<close>

definition rep_ok :: "cclass \<Rightarrow> nat \<Rightarrow> nat option \<Rightarrow> string \<Rightarrow> bool" where
  "rep_ok c lo hi p \<longleftrightarrow>
     lo \<le> length p \<and> (case hi of None \<Rightarrow> True | Some h \<Rightarrow> length p \<le> h) \<and> list_all (in_class c) p"

fun parses :: "pattern \<Rightarrow> nat \<Rightarrow> string \<Rightarrow> marks \<Rightarrow> marks \<Rightarrow> bool" where
  "parses [] i s ms m = (m = ms)"
| "parses (Bol # r) i s ms m = (i = 0 \<and> parses r i s ms m)"
| "parses (Eol # r) i s ms m = ((s = [] \<or> s = [CHR 0x0A]) \<and> parses r i s ms m)"
| "parses (MarkStart n # r) i s ms m = parses r i s (ms\<lparr>starts := (n, i) # starts ms\<rparr>) m"
| "parses (MarkEnd n # r) i s ms m = parses r i s (ms\<lparr>ends := (n, i) # ends ms\<rparr>) m"
| "parses (Rep c lo hi # r) i s ms m =
     (\<exists>p q. s = p @ q \<and> rep_ok c lo hi p \<and> parses r (i + length p) q ms m)"

text \<open>
  The items that the pattern has for a field of each kind, the text that its group
  captures, and where the marks of the group are set for a field that starts at \<open>i\<close>.
\<close>

fun wrap :: "string option \<Rightarrow> pattern \<Rightarrow> pattern" where
  "wrap None body = body"
| "wrap (Some n) body = grp n body"

fun field_items :: "kind \<Rightarrow> string option \<Rightarrow> pattern" where
  "field_items Token nm = wrap nm [plus1 NonSpace]"
| "field_items Stamp nm = single (Lit CHR ''['') # wrap nm [plus1 (NotChar CHR '']'')] @ [single (Lit CHR '']'')]"
| "field_items Quoted nm = single (Lit CHR 0x22) # wrap nm [star (NotChar CHR 0x22)] @ [single (Lit CHR 0x22)]"
| "field_items Status nm = wrap nm [exactly 3 Digit]"
| "field_items Upstream nm = wrap nm [single (Lit CHR ''[''), star (NotChar CHR '']''), single (Lit CHR '']'')]"

fun fields_items :: "field list \<Rightarrow> pattern" where
  "fields_items [] = []"
| "fields_items ((k, nm) # fs) = field_items k nm @ plus1 Space # fields_items fs"

definition LAST_ITEMS :: pattern where
  "LAST_ITEMS = field_items Token (Some ''request_id'') @ [star Space, Eol]"

fun captured :: "kind \<Rightarrow> string \<Rightarrow> string" where
  "captured Stamp f = butlast (tl f)"
| "captured Quoted f = butlast (tl f)"
| "captured k f = f"

fun span_of :: "kind \<Rightarrow> nat \<Rightarrow> nat \<Rightarrow> nat \<times> nat" where
  "span_of Stamp i len = (i + 1, i + len - 1)"
| "span_of Quoted i len = (i + 1, i + len - 1)"
| "span_of k i len = (i, i + len)"

fun mark :: "string option \<Rightarrow> nat \<Rightarrow> nat \<Rightarrow> marks \<Rightarrow> marks" where
  "mark None a b ms = ms"
| "mark (Some n) a b ms = ms\<lparr>starts := (n, a) # starts ms, ends := (n, b) # ends ms\<rparr>"

fun names_of :: "field list \<Rightarrow> string list" where
  "names_of [] = []"
| "names_of ((k, None) # fs) = names_of fs"
| "names_of ((k, Some n) # fs) = n # names_of fs"

definition lookup :: "marks \<Rightarrow> string \<Rightarrow> nat option \<times> nat option" where
  "lookup ms n = (map_of (starts ms) n, map_of (ends ms) n)"

fun placed :: "marks \<Rightarrow> nat \<Rightarrow> field list \<Rightarrow> (string \<times> string) list \<Rightarrow> bool" where
  "placed ms i [] segs = True"
| "placed ms i ((k, nm) # flds) [] = True"
| "placed ms i ((k, nm) # flds) ((f, w) # segs) \<longleftrightarrow>
     (\<forall>n. nm = Some n \<longrightarrow> lookup ms n = (Some (fst (span_of k i (length f))), Some (snd (span_of k i (length f)))))
     \<and> placed ms (i + length f + length w) flds segs"

fun caught :: "match_obj \<Rightarrow> field \<Rightarrow> string \<times> string \<Rightarrow> bool" where
  "caught mo (k, nm) (f, w) \<longleftrightarrow> (\<forall>n. nm = Some n \<longrightarrow> group mo n = Inr (captured k f))"

section \<open>Concrete inputs\<close>

text \<open>
  The example line of the specification with its match; a line with a request of one
  token, an empty and a spaced upstream field, with its match; a line whose second token
  is not a dash; a line with a dash between the user and the timestamp; a line that is
  no log line.
\<close>

definition EXAMPLE_LINE :: string where
  \<open>EXAMPLE_LINE = ''127.0.0.1 - - [10/Oct/2023:13:55:36 +0000] "GET /index.html HTTP/1.1" 200 612 "-" "curl/7.68.0" 123 0.002 [-] [-] - - - - abc123''\<close>

definition EXAMPLE_MATCH :: match_obj where
  "EXAMPLE_MATCH = \<lparr>subject = EXAMPLE_LINE, found = \<lparr>starts =
     [(''request_id'', 122), (''upstream_status'', 120),
      (''upstream_response_time'', 118),
      (''upstream_response_length'', 116), (''upstream_addr'', 114),
      (''upstream_other'', 110), (''upstream_name'', 106),
      (''request_time'', 100), (''request_length'', 96),
      (''http_user_agent'', 83), (''http_referer'', 79),
      (''body_bytes_sent'', 74), (''status'', 70), (''request'', 44),
      (''time_local'', 15), (''remote_user'', 12), (''remote_addr'', 0)],
     ends =
       [(''request_id'', 128), (''upstream_status'', 121),
        (''upstream_response_time'', 119),
        (''upstream_response_length'', 117), (''upstream_addr'', 115),
        (''upstream_other'', 113), (''upstream_name'', 109),
        (''request_time'', 105), (''request_length'', 99),
        (''http_user_agent'', 94), (''http_referer'', 80),
        (''body_bytes_sent'', 77), (''status'', 73), (''request'', 68),
        (''time_local'', 41), (''remote_user'', 13), (''remote_addr'', 9)]\<rparr>\<rparr>"

definition SHORT_LINE :: string where
  \<open>SHORT_LINE = ''10.0.0.7 - bob [01/Jan/2024:00:00:00 +0100] "PING" 204 0 "-" "-" 5 0.000 [] [a b] 10.0.0.9:80 0 0.001 204 r1''\<close>

definition SHORT_MATCH :: match_obj where
  "SHORT_MATCH = \<lparr>subject = SHORT_LINE, found = \<lparr>starts =
     [(''request_id'', 106), (''upstream_status'', 102),
      (''upstream_response_time'', 96),
      (''upstream_response_length'', 94), (''upstream_addr'', 82),
      (''upstream_other'', 76), (''upstream_name'', 73),
      (''request_time'', 67), (''request_length'', 65),
      (''http_user_agent'', 62), (''http_referer'', 58),
      (''body_bytes_sent'', 55), (''status'', 51), (''request'', 45),
      (''time_local'', 16), (''remote_user'', 11), (''remote_addr'', 0)],
     ends =
       [(''request_id'', 108), (''upstream_status'', 105),
        (''upstream_response_time'', 101),
        (''upstream_response_length'', 95), (''upstream_addr'', 93),
        (''upstream_other'', 81), (''upstream_name'', 75),
        (''request_time'', 72), (''request_length'', 66),
        (''http_user_agent'', 63), (''http_referer'', 59),
        (''body_bytes_sent'', 56), (''status'', 54), (''request'', 49),
        (''time_local'', 42), (''remote_user'', 14), (''remote_addr'', 8)]\<rparr>\<rparr>"



definition JUNK_LINE :: string where
  "JUNK_LINE = ''not a log line''"

text \<open>
  The arguments of a run without and with \<open>--commit\<close>, and the state in which a run
  starts: the log holds the given text, no CSV file has been written, the repository is
  the given one, nothing is on the console and no command has been run.
\<close>

definition plain_args :: args where
  "plain_args = \<lparr>log = ''access.log'', out = ''out.csv'', repo = ''.'', commit = False, message = []\<rparr>"

definition commit_args :: args where
  "commit_args = \<lparr>log = ''access.log'', out = ''out.csv'', repo = ''.'', commit = True, message = []\<rparr>"

definition start :: "string \<Rightarrow> 'e \<Rightarrow> 'e state" where
  "start text r =
     \<lparr>world = \<lparr>texts = [''access.log'' \<mapsto> text], csvs = Map.empty, ext = r\<rparr>,
      console = [], invoked = []\<rparr>"

section \<open>The matcher and the declarative reading agree\<close>

lemma rep_ok_Nil: "rep_ok c lo hi [] \<longleftrightarrow> lo = 0"
  by (auto simp: rep_ok_def split: option.splits)

lemma rep_ok_Cons:
  "rep_ok c lo hi (x # p) \<longleftrightarrow> hi \<noteq> Some 0 \<and> in_class c x \<and> rep_ok c (lo - 1) (dec hi) p"
  by (cases hi) (auto simp: rep_ok_def dec_def)

lemma parses_Rep_Nil:
  "parses (Rep c lo hi # r) i [] ms m \<longleftrightarrow> lo = 0 \<and> parses r i [] ms m"
  by (auto simp: rep_ok_Nil)

lemma parses_Rep_Cons:
  "parses (Rep c lo hi # r) i (x # xs) ms m \<longleftrightarrow>
     (hi \<noteq> Some 0 \<and> in_class c x \<and> parses (Rep c (lo - 1) (dec hi) # r) (i + 1) xs ms m)
     \<or> (lo = 0 \<and> parses r i (x # xs) ms m)"
proof
  assume "parses (Rep c lo hi # r) i (x # xs) ms m"
  then obtain p q where pq: "x # xs = p @ q" "rep_ok c lo hi p" "parses r (i + length p) q ms m"
    by auto
  show "(hi \<noteq> Some 0 \<and> in_class c x \<and> parses (Rep c (lo - 1) (dec hi) # r) (i + 1) xs ms m)
     \<or> (lo = 0 \<and> parses r i (x # xs) ms m)"
  proof (cases p)
    case Nil
    with pq show ?thesis by (simp add: rep_ok_Nil)
  next
    case (Cons y p')
    with pq have "y = x" "xs = p' @ q" by simp_all
    with pq Cons show ?thesis by (auto simp: rep_ok_Cons)
  qed
next
  assume "(hi \<noteq> Some 0 \<and> in_class c x \<and> parses (Rep c (lo - 1) (dec hi) # r) (i + 1) xs ms m)
     \<or> (lo = 0 \<and> parses r i (x # xs) ms m)"
  then show "parses (Rep c lo hi # r) i (x # xs) ms m"
  proof
    assume a: "hi \<noteq> Some 0 \<and> in_class c x \<and> parses (Rep c (lo - 1) (dec hi) # r) (i + 1) xs ms m"
    then obtain p q where pq: "xs = p @ q" "rep_ok c (lo - 1) (dec hi) p"
      "parses r (i + 1 + length p) q ms m" by auto
    have "x # xs = (x # p) @ q" using pq by simp
    moreover have "rep_ok c lo hi (x # p)" using a pq by (simp add: rep_ok_Cons)
    moreover have "parses r (i + length (x # p)) q ms m" using pq by simp
    ultimately show ?thesis unfolding parses.simps by blast
  next
    assume "lo = 0 \<and> parses r i (x # xs) ms m"
    then have "x # xs = [] @ (x # xs) \<and> rep_ok c lo hi [] \<and> parses r (i + length ([]::string)) (x # xs) ms m"
      by (simp add: rep_ok_Nil)
    then show ?thesis unfolding parses.simps by blast
  qed
qed

lemma match_items_sound:
  "match_items p i s ms = Some m \<Longrightarrow> parses p i s ms m"
proof (induction p i s ms rule: match_items.induct)
  case (7 c lo hi r i x xs ms)
  show ?case
  proof (cases "hi \<noteq> Some 0 \<and> in_class c x \<and> match_items (Rep c (lo - 1) (dec hi) # r) (i + 1) xs ms \<noteq> None")
    case True
    then have "match_items (Rep c (lo - 1) (dec hi) # r) (i + 1) xs ms = Some m"
      using "7.prems" by auto
    with True "7.IH"(1) show ?thesis by (simp only: parses_Rep_Cons) simp
  next
    case False
    then have inner: "(if hi \<noteq> Some 0 \<and> in_class c x
            then match_items (Rep c (lo - 1) (dec hi) # r) (i + 1) xs ms else None) = None"
      by auto
    with "7.prems" have "lo = 0" "match_items r i (x # xs) ms = Some m"
      by (auto split: if_splits)
    with inner "7.IH"(2) show ?thesis by (simp only: parses_Rep_Cons) simp
  qed
qed (auto split: if_splits simp: rep_ok_Nil simp del: parses.simps(6) simp add: parses_Rep_Nil)


section \<open>Fields\<close>

lemma rep_ok_single: "rep_ok (Lit a) (Suc 0) (Some (Suc 0)) p \<longleftrightarrow> p = [a]"
  by (cases p) (auto simp: rep_ok_def)

lemma rep_ok_plus1: "rep_ok c (Suc 0) None p \<longleftrightarrow> p \<noteq> [] \<and> list_all (in_class c) p"
  by (cases p) (auto simp: rep_ok_def)

lemma rep_ok_star: "rep_ok c 0 None p \<longleftrightarrow> list_all (in_class c) p"
  by (auto simp: rep_ok_def)

lemma rep_ok_exactly: "rep_ok c n (Some n) p \<longleftrightarrow> length p = n \<and> list_all (in_class c) p"
  by (auto simp: rep_ok_def)

lemma in_class_eta:
  "in_class Space = is_space"
  "in_class NonSpace = (\<lambda>c. \<not> is_space c)"
  "in_class Digit = is_digit"
  "in_class (NotChar a) = (\<lambda>c. c \<noteq> a)"
  by (rule ext, simp)+

lemmas rep_simps = rep_ok_single rep_ok_plus1 rep_ok_star in_class_eta

lemma parses_single:
  "parses (Rep (Lit a) (Suc 0) (Some (Suc 0)) # r) i s ms m \<longleftrightarrow> (\<exists>q. s = a # q \<and> parses r (Suc i) q ms m)"
  by (simp add: rep_simps)

lemma parses_token:
  "parses (Rep NonSpace (Suc 0) None # r) i s ms m \<longleftrightarrow>
     (\<exists>f q. s = f @ q \<and> field_ok Token f \<and> parses r (i + length f) q ms m)"
  by (simp add: rep_simps)

lemma parses_status:
  "parses (Rep Digit 3 (Some 3) # r) i s ms m \<longleftrightarrow>
     (\<exists>f q. s = f @ q \<and> field_ok Status f \<and> parses r (i + length f) q ms m)"
  by (simp add: rep_ok_exactly in_class_eta)

lemma parses_delimited:
  "parses (Rep (Lit a) (Suc 0) (Some (Suc 0)) # Rep (NotChar z) lo None # Rep (Lit z) (Suc 0) (Some (Suc 0)) # r) i s ms m \<longleftrightarrow>
     (\<exists>b q. s = (a # b @ [z]) @ q \<and> lo \<le> length b \<and> list_all (\<lambda>c. c \<noteq> z) b
        \<and> parses r (i + length (a # b @ [z])) q ms m)"
  (is "?L \<longleftrightarrow> ?R")
proof
  assume ?L
  then obtain q1 b q2 q3 where
    "s = a # q1" "q1 = b @ q2" "rep_ok (NotChar z) lo None b" "q2 = z # q3"
    "parses r (Suc (Suc i + length b)) q3 ms m"
    by (auto simp: rep_ok_single)
  then have "s = (a # b @ [z]) @ q3 \<and> lo \<le> length b \<and> list_all (\<lambda>c. c \<noteq> z) b
        \<and> parses r (i + length (a # b @ [z])) q3 ms m"
    by (simp add: rep_ok_def in_class_eta)
  then show ?R by blast
next
  assume ?R
  then obtain b q where *: "s = (a # b @ [z]) @ q" "lo \<le> length b" "list_all (\<lambda>c. c \<noteq> z) b"
        "parses r (i + length (a # b @ [z])) q ms m" by blast
  have "rep_ok (NotChar z) lo None b" using * by (simp add: rep_ok_def in_class_eta)
  moreover have "parses r (Suc i + length b + length [z]) q ms m" using * by simp
  ultimately have "parses (Rep (NotChar z) lo None # Rep (Lit z) (Suc 0) (Some (Suc 0)) # r) (Suc i) (b @ z # q) ms m"
    unfolding parses.simps rep_ok_single by (metis append.simps)
  then have "parses (Rep (Lit a) (Suc 0) (Some (Suc 0)) # Rep (NotChar z) lo None # Rep (Lit z) (Suc 0) (Some (Suc 0)) # r) i (a # b @ z # q) ms m"
    unfolding parses_single by blast
  then show ?L using * by simp
qed

lemma parses_delimited_marked:
  "parses (Rep (Lit a) (Suc 0) (Some (Suc 0)) # MarkStart n # Rep (NotChar z) lo None # MarkEnd n
            # Rep (Lit z) (Suc 0) (Some (Suc 0)) # r) i s ms m \<longleftrightarrow>
     (\<exists>b q. s = (a # b @ [z]) @ q \<and> lo \<le> length b \<and> list_all (\<lambda>c. c \<noteq> z) b
        \<and> parses r (i + length (a # b @ [z])) q
            (ms\<lparr>starts := (n, i + 1) # starts ms, ends := (n, i + length (a # b @ [z]) - 1) # ends ms\<rparr>) m)"
  (is "?L \<longleftrightarrow> ?R")
proof
  assume ?L
  then obtain q1 b q2 q3 where
    "s = a # q1" "q1 = b @ q2" "rep_ok (NotChar z) lo None b" "q2 = z # q3"
    "parses r (Suc (Suc i + length b)) q3
       (ms\<lparr>starts := (n, Suc i) # starts ms, ends := (n, Suc i + length b) # ends ms\<rparr>) m"
    by (auto simp: rep_ok_single)
  then have "s = (a # b @ [z]) @ q3 \<and> lo \<le> length b \<and> list_all (\<lambda>c. c \<noteq> z) b
        \<and> parses r (i + length (a # b @ [z])) q3
            (ms\<lparr>starts := (n, i + 1) # starts ms, ends := (n, i + length (a # b @ [z]) - 1) # ends ms\<rparr>) m"
    by (simp add: rep_ok_def in_class_eta)
  then show ?R by blast
next
  assume ?R
  then obtain b q where *: "s = (a # b @ [z]) @ q" "lo \<le> length b" "list_all (\<lambda>c. c \<noteq> z) b"
        "parses r (i + length (a # b @ [z])) q
            (ms\<lparr>starts := (n, i + 1) # starts ms, ends := (n, i + length (a # b @ [z]) - 1) # ends ms\<rparr>) m"
    by blast
  have "rep_ok (NotChar z) lo None b" using * by (simp add: rep_ok_def in_class_eta)
  moreover have "parses (MarkEnd n # Rep (Lit z) (Suc 0) (Some (Suc 0)) # r) (Suc i + length b) (z # q)
      (ms\<lparr>starts := (n, Suc i) # starts ms\<rparr>) m"
    using * by (simp add: rep_ok_single)
  ultimately have "parses (Rep (NotChar z) lo None # MarkEnd n # Rep (Lit z) (Suc 0) (Some (Suc 0)) # r)
      (Suc i) (b @ z # q) (ms\<lparr>starts := (n, Suc i) # starts ms\<rparr>) m"
    unfolding parses.simps(6) by blast
  then have "parses (Rep (Lit a) (Suc 0) (Some (Suc 0)) # MarkStart n # Rep (NotChar z) lo None # MarkEnd n
            # Rep (Lit z) (Suc 0) (Some (Suc 0)) # r) i (a # b @ z # q) ms m"
    unfolding parses_single parses.simps(4) by blast
  then show ?L using * by simp
qed

lemma field_ok_delim:
  "field_ok Stamp f \<longleftrightarrow> (\<exists>b. f = CHR ''['' # b @ [CHR '']''] \<and> Suc 0 \<le> length b \<and> list_all (\<lambda>c. c \<noteq> CHR '']'') b)"
  "field_ok Quoted f \<longleftrightarrow> (\<exists>b. f = CHR 0x22 # b @ [CHR 0x22] \<and> 0 \<le> length b \<and> list_all (\<lambda>c. c \<noteq> CHR 0x22) b)"
  "field_ok Upstream f \<longleftrightarrow> (\<exists>b. f = CHR ''['' # b @ [CHR '']''] \<and> 0 \<le> length b \<and> list_all (\<lambda>c. c \<noteq> CHR '']'') b)"
  by (auto simp: Suc_le_eq)

lemma parses_field:
  "parses (field_items k nm @ r) i s ms m \<longleftrightarrow>
     (\<exists>f q. s = f @ q \<and> field_ok k f \<and>
        parses r (i + length f) q
          (mark nm (fst (span_of k i (length f))) (snd (span_of k i (length f))) ms) m)"
proof (cases nm)
  case None
  show ?thesis
  proof (cases k)
    case Token
    with None show ?thesis by (simp add: parses_token del: parses.simps(6) field_ok.simps)
  next
    case Stamp
    have "parses (field_items Stamp None @ r) i s ms m \<longleftrightarrow>
      (\<exists>b q. s = (CHR ''['' # b @ [CHR '']'']) @ q \<and> Suc 0 \<le> length b \<and> list_all (\<lambda>c. c \<noteq> CHR '']'') b
        \<and> parses r (i + length (CHR ''['' # b @ [CHR '']''])) q ms m)"
      by (simp add: parses_delimited del: parses.simps(6))
    also have "\<dots> \<longleftrightarrow> (\<exists>f q. s = f @ q \<and> field_ok Stamp f \<and> parses r (i + length f) q ms m)"
      unfolding field_ok_delim by blast
    finally show ?thesis using None Stamp by simp
  next
    case Quoted
    have "parses (field_items Quoted None @ r) i s ms m \<longleftrightarrow>
      (\<exists>b q. s = (CHR 0x22 # b @ [CHR 0x22]) @ q \<and> 0 \<le> length b \<and> list_all (\<lambda>c. c \<noteq> CHR 0x22) b
        \<and> parses r (i + length (CHR 0x22 # b @ [CHR 0x22])) q ms m)"
      by (simp add: parses_delimited del: parses.simps(6))
    also have "\<dots> \<longleftrightarrow> (\<exists>f q. s = f @ q \<and> field_ok Quoted f \<and> parses r (i + length f) q ms m)"
      unfolding field_ok_delim by blast
    finally show ?thesis using None Quoted by simp
  next
    case Status
    with None show ?thesis by (simp add: parses_status del: parses.simps(6) field_ok.simps)
  next
    case Upstream
    have "parses (field_items Upstream None @ r) i s ms m \<longleftrightarrow>
      (\<exists>b q. s = (CHR ''['' # b @ [CHR '']'']) @ q \<and> 0 \<le> length b \<and> list_all (\<lambda>c. c \<noteq> CHR '']'') b
        \<and> parses r (i + length (CHR ''['' # b @ [CHR '']''])) q ms m)"
      by (simp add: parses_delimited del: parses.simps(6))
    also have "\<dots> \<longleftrightarrow> (\<exists>f q. s = f @ q \<and> field_ok Upstream f \<and> parses r (i + length f) q ms m)"
      unfolding field_ok_delim by blast
    finally show ?thesis using None Upstream by simp
  qed
next
  case (Some n)
  show ?thesis
  proof (cases k)
    case Token
    with Some show ?thesis by (simp add: parses_token grp_def del: parses.simps(6) field_ok.simps)
  next
    case Stamp
    let ?ms = "\<lambda>f. ms\<lparr>starts := (n, i + 1) # starts ms, ends := (n, i + length f - 1) # ends ms\<rparr>"
    have "parses (field_items Stamp (Some n) @ r) i s ms m \<longleftrightarrow>
      (\<exists>b q. s = (CHR ''['' # b @ [CHR '']'']) @ q \<and> Suc 0 \<le> length b \<and> list_all (\<lambda>c. c \<noteq> CHR '']'') b
        \<and> parses r (i + length (CHR ''['' # b @ [CHR '']''])) q (?ms (CHR ''['' # b @ [CHR '']''])) m)"
      by (simp add: parses_delimited_marked grp_def del: parses.simps(6))
    also have "\<dots> \<longleftrightarrow> (\<exists>f q. s = f @ q \<and> field_ok Stamp f \<and> parses r (i + length f) q (?ms f) m)"
      unfolding field_ok_delim by blast
    finally show ?thesis using Some Stamp by simp
  next
    case Quoted
    let ?ms = "\<lambda>f. ms\<lparr>starts := (n, i + 1) # starts ms, ends := (n, i + length f - 1) # ends ms\<rparr>"
    have "parses (field_items Quoted (Some n) @ r) i s ms m \<longleftrightarrow>
      (\<exists>b q. s = (CHR 0x22 # b @ [CHR 0x22]) @ q \<and> 0 \<le> length b \<and> list_all (\<lambda>c. c \<noteq> CHR 0x22) b
        \<and> parses r (i + length (CHR 0x22 # b @ [CHR 0x22])) q (?ms (CHR 0x22 # b @ [CHR 0x22])) m)"
      by (simp add: parses_delimited_marked grp_def del: parses.simps(6))
    also have "\<dots> \<longleftrightarrow> (\<exists>f q. s = f @ q \<and> field_ok Quoted f \<and> parses r (i + length f) q (?ms f) m)"
      unfolding field_ok_delim by blast
    finally show ?thesis using Some Quoted by simp
  next
    case Status
    with Some show ?thesis by (simp add: parses_status grp_def del: parses.simps(6) field_ok.simps)
  next
    case Upstream
    let ?ms = "\<lambda>f. ms\<lparr>starts := (n, i) # starts ms, ends := (n, i + length f) # ends ms\<rparr>"
    have "parses (field_items Upstream (Some n) @ r) i s ms m \<longleftrightarrow>
      (\<exists>b q. s = (CHR ''['' # b @ [CHR '']'']) @ q \<and> 0 \<le> length b \<and> list_all (\<lambda>c. c \<noteq> CHR '']'') b
        \<and> parses r (i + length (CHR ''['' # b @ [CHR '']''])) q (?ms (CHR ''['' # b @ [CHR '']''])) m)"
      by (simp add: parses_delimited grp_def del: parses.simps(6))
    also have "\<dots> \<longleftrightarrow> (\<exists>f q. s = f @ q \<and> field_ok Upstream f \<and> parses r (i + length f) q (?ms f) m)"
      unfolding field_ok_delim by blast
    finally show ?thesis using Some Upstream by simp
  qed
qed

section \<open>Sequences of fields\<close>

lemma flat_simps [simp]: "flat [] = []" "flat ((f, w) # segs) = f @ w @ flat segs"
  by (simp_all add: flat_def)

lemma flat_append: "flat (xs @ ys) = flat xs @ flat ys"
  by (simp add: flat_def)

lemma flat_split:
  assumes "j < length segs"
  shows "flat segs = flat (take j segs) @ fst (segs ! j) @ snd (segs ! j) @ flat (drop (Suc j) segs)"
proof -
  have "segs = take j segs @ segs ! j # drop (Suc j) segs" using assms by (rule id_take_nth_drop)
  then have "flat segs = flat (take j segs @ segs ! j # drop (Suc j) segs)" by simp
  then show ?thesis by (cases "segs ! j") (simp add: flat_append)
qed

lemma group_lookup:
  "lookup (found mo) n = (Some a, Some b) \<Longrightarrow> group mo n = Inr (take (b - a) (drop a (subject mo)))"
  by (simp add: group_def lookup_def)

lemma slice_captured:
  assumes "field_ok k f"
  shows "take (snd (span_of k (length pre) (length f)) - fst (span_of k (length pre) (length f)))
           (drop (fst (span_of k (length pre) (length f))) (pre @ f @ rest)) = captured k f"
  using assms by (cases k) auto

lemma lookup_mark:
  "lookup (mark (Some n) a b ms) n = (Some a, Some b)"
  "n' \<noteq> n \<Longrightarrow> lookup (mark (Some n) a b ms) n' = lookup ms n'"
  "lookup (mark None a b ms) n' = lookup ms n'"
  by (simp_all add: lookup_def)

lemma caught_placed:
  assumes "placed ms i flds segs" "list_all2 seg_ok (map fst flds) segs" "i = length pre"
  shows "list_all2 (caught \<lparr>subject = pre @ flat segs @ q, found = ms\<rparr>) flds segs"
  using assms
proof (induction ms i flds segs arbitrary: pre rule: placed.induct)
  case (3 ms i k nm flds f w segs)
  have "placed ms (i + length f + length w) flds segs" using "3.prems"(1) by simp
  moreover have "list_all2 seg_ok (map fst flds) segs" using "3.prems"(2) by simp
  moreover have "i + length f + length w = length (pre @ f @ w)" using "3.prems"(3) by simp
  ultimately have "list_all2 (caught \<lparr>subject = (pre @ f @ w) @ flat segs @ q, found = ms\<rparr>) flds segs"
    by (rule "3.IH")
  moreover have "caught \<lparr>subject = pre @ flat ((f, w) # segs) @ q, found = ms\<rparr> (k, nm) (f, w)"
  proof (cases nm)
    case None
    then show ?thesis by simp
  next
    case (Some n)
    let ?sp = "span_of k (length pre) (length f)"
    have "lookup ms n = (Some (fst ?sp), Some (snd ?sp))" using "3.prems"(1,3) Some by simp
    then have "group \<lparr>subject = pre @ flat ((f, w) # segs) @ q, found = ms\<rparr> n =
        Inr (take (snd ?sp - fst ?sp) (drop (fst ?sp) (pre @ f @ (w @ flat segs @ q))))"
      by (simp add: group_lookup)
    moreover have "field_ok k f" using "3.prems"(2) by simp
    ultimately show ?thesis using Some slice_captured[of k f pre "w @ flat segs @ q"] by simp
  qed
  ultimately show ?case by simp
qed simp_all

lemma placed_keep:
  assumes "placed ms i flds segs" "\<forall>n \<in> set (names_of flds). lookup m n = lookup ms n"
  shows "placed m i flds segs"
  using assms
proof (induction ms i flds segs rule: placed.induct)
  case (3 ms i k nm flds f w segs)
  then show ?case by (cases nm) auto
qed simp_all

lemma placed_nth:
  assumes "placed ms i flds segs" "j < length flds" "j < length segs" "flds ! j = (k, Some n)"
  shows "lookup ms n =
           (Some (fst (span_of k (i + length (flat (take j segs))) (length (fst (segs ! j))))),
            Some (snd (span_of k (i + length (flat (take j segs))) (length (fst (segs ! j))))))"
  using assms
proof (induction ms i flds segs arbitrary: j rule: placed.induct)
  case (3 ms i k' nm flds f w segs)
  show ?case
  proof (cases j)
    case 0
    then show ?thesis using "3.prems" by simp
  next
    case (Suc j')
    then have "lookup ms n =
      (Some (fst (span_of k (i + length f + length w + length (flat (take j' segs))) (length (fst (segs ! j'))))),
       Some (snd (span_of k (i + length f + length w + length (flat (take j' segs))) (length (fst (segs ! j'))))))"
      using "3.prems" by (intro "3.IH") simp_all
    then show ?thesis using Suc by (simp add: add.assoc)
  qed
qed simp_all

lemma parses_fields:
  assumes "parses (fields_items flds @ r) i s ms m"
    and "distinct (names_of flds)"
  shows "\<exists>segs q ms'. s = flat segs @ q \<and> list_all2 seg_ok (map fst flds) segs
           \<and> parses r (i + length (flat segs)) q ms' m
           \<and> placed ms' i flds segs
           \<and> (\<forall>n. n \<notin> set (names_of flds) \<longrightarrow> lookup ms' n = lookup ms n)"
  using assms
proof (induction flds arbitrary: i s ms)
  case Nil
  then have "s = flat [] @ s \<and> list_all2 seg_ok (map fst []) []
           \<and> parses r (i + length (flat [])) s ms m
           \<and> placed ms i [] []
           \<and> (\<forall>n. n \<notin> set (names_of []) \<longrightarrow> lookup ms n = lookup ms n)"
    by simp
  then show ?case by blast
next
  case (Cons fld rest)
  obtain k nm where fld: "fld = (k, nm)" by (cases fld)
  let ?sp = "\<lambda>f. span_of k i (length f)"
  have "parses (field_items k nm @ plus1 Space # (fields_items rest @ r)) i s ms m"
    using Cons.prems(1) fld by simp
  then obtain f q1 where f: "s = f @ q1" "field_ok k f"
    and p1: "parses (plus1 Space # (fields_items rest @ r)) (i + length f) q1
               (mark nm (fst (?sp f)) (snd (?sp f)) ms) m"
    unfolding parses_field by blast
  let ?ms1 = "mark nm (fst (?sp f)) (snd (?sp f)) ms"
  from p1 obtain w q2 where w: "q1 = w @ q2" "w \<noteq> []" "list_all is_space w"
    and p2: "parses (fields_items rest @ r) (i + length f + length w) q2 ?ms1 m"
    by (auto simp: rep_simps)
  have d: "distinct (names_of rest)" using Cons.prems(2) fld by (cases nm) auto
  from Cons.IH[OF p2 d] obtain segs q ms' where
    ih: "q2 = flat segs @ q" "list_all2 seg_ok (map fst rest) segs"
        "parses r (i + length f + length w + length (flat segs)) q ms' m"
        "placed ms' (i + length f + length w) rest segs"
        "\<forall>n. n \<notin> set (names_of rest) \<longrightarrow> lookup ms' n = lookup ?ms1 n"
    by blast
  have c0: "\<forall>n. nm = Some n \<longrightarrow> lookup ms' n = (Some (fst (?sp f)), Some (snd (?sp f)))"
  proof (intro allI impI)
    fix n assume Some: "nm = Some n"
    then have "n \<notin> set (names_of rest)" using Cons.prems(2) fld by simp
    then show "lookup ms' n = (Some (fst (?sp f)), Some (snd (?sp f)))"
      using ih(5) Some by (simp add: lookup_def)
  qed
  have keep: "\<forall>n. n \<notin> set (names_of (fld # rest)) \<longrightarrow> lookup ms' n = lookup ms n"
  proof (intro allI impI)
    fix n assume n: "n \<notin> set (names_of (fld # rest))"
    then have "n \<notin> set (names_of rest)" "nm \<noteq> Some n" using fld by (cases nm; auto)+
    then show "lookup ms' n = lookup ms n" using ih(5) by (cases nm) (auto simp: lookup_def)
  qed
  have "s = flat ((f, w) # segs) @ q \<and> list_all2 seg_ok (map fst (fld # rest)) ((f, w) # segs)
           \<and> parses r (i + length (flat ((f, w) # segs))) q ms' m
           \<and> placed ms' i (fld # rest) ((f, w) # segs)
           \<and> (\<forall>n. n \<notin> set (names_of (fld # rest)) \<longrightarrow> lookup ms' n = lookup ms n)"
    using f w ih c0 keep fld by (simp add: add.assoc)
  then show ?case by blast
qed


section \<open>The pattern of the log\<close>

lemma LOG_RE_fields: "LOG_RE = Bol # fields_items LINE_FIELDS @ LAST_ITEMS"
  by (simp add: LOG_RE_def LINE_FIELDS_def LAST_ITEMS_def grp_def)

lemma parses_last:
  "parses LAST_ITEMS i s ms m \<longleftrightarrow>
     (\<exists>f t. s = f @ t \<and> field_ok Token f \<and> list_all is_space t
        \<and> m = mark (Some ''request_id'') i (i + length f) ms)"
  (is "?L \<longleftrightarrow> ?R")
proof
  assume ?L
  then obtain f q where f: "s = f @ q" "field_ok Token f"
    and "parses [star Space, Eol] (i + length f) q (mark (Some ''request_id'') i (i + length f) ms) m"
    unfolding LAST_ITEMS_def parses_field by auto
  then obtain p t where "q = p @ t" "list_all is_space p" "t = [] \<or> t = [CHR 0x0A]"
    "m = mark (Some ''request_id'') i (i + length f) ms"
    by (auto simp: rep_simps)
  moreover from this have "list_all is_space q" by (auto simp: is_space_def)
  ultimately show ?R using f by blast
next
  assume ?R
  then obtain f t where *: "s = f @ t" "field_ok Token f" "list_all is_space t"
        "m = mark (Some ''request_id'') i (i + length f) ms" by blast
  have "t = t @ [] \<and> rep_ok Space 0 None t" using * by (simp add: rep_simps)
  then have "parses [star Space, Eol] (i + length f) t (mark (Some ''request_id'') i (i + length f) ms) m"
    using * unfolding parses.simps by blast
  then show ?L unfolding LAST_ITEMS_def parses_field using * by auto
qed

lemma LOG_RE_parts:
  assumes "re_match LOG_RE line = Some mo"
  shows "\<exists>segs f t. line = flat segs @ f @ t \<and> list_all2 seg_ok (map fst LINE_FIELDS) segs
           \<and> field_ok Token f \<and> list_all is_space t \<and> subject mo = line
           \<and> placed (found mo) 0 LINE_FIELDS segs
           \<and> list_all2 (caught mo) LINE_FIELDS segs \<and> group mo ''request_id'' = Inr f"
proof -
  from assms obtain m where m: "match_items LOG_RE 0 line no_marks = Some m"
    and mo: "mo = \<lparr>subject = line, found = m\<rparr>"
    by (auto simp: re_match_def)
  have "parses LOG_RE 0 line no_marks m" using m by (rule match_items_sound)
  then have p: "parses (fields_items LINE_FIELDS @ LAST_ITEMS) 0 line no_marks m"
    unfolding LOG_RE_fields by simp
  have d: "distinct (names_of LINE_FIELDS)" by (simp add: LINE_FIELDS_def)
  from parses_fields[OF p d] obtain segs q ms' where
    g: "line = flat segs @ q" "list_all2 seg_ok (map fst LINE_FIELDS) segs"
       "parses LAST_ITEMS (0 + length (flat segs)) q ms' m"
       "placed ms' 0 LINE_FIELDS segs"
    by blast
  from g(3) obtain f t where l: "q = f @ t" "field_ok Token f" "list_all is_space t"
    "m = mark (Some ''request_id'') (length (flat segs)) (length (flat segs) + length f) ms'"
    unfolding parses_last by auto
  have "''request_id'' \<notin> set (names_of LINE_FIELDS)" by (simp add: LINE_FIELDS_def)
  then have "\<forall>n \<in> set (names_of LINE_FIELDS). lookup m n = lookup ms' n"
    unfolding l(4) by (metis lookup_mark(2))
  with g(4) have pl: "placed m 0 LINE_FIELDS segs" by (rule placed_keep)
  have s: "subject mo = flat segs @ f @ t" using mo g(1) l(1) by simp
  have "list_all2 (caught \<lparr>subject = [] @ flat segs @ f @ t, found = m\<rparr>) LINE_FIELDS segs"
    using pl g(2) by (rule caught_placed) simp
  then have c: "list_all2 (caught mo) LINE_FIELDS segs" using mo s by simp
  have "lookup (found mo) ''request_id'' = (Some (length (flat segs)), Some (length (flat segs) + length f))"
    unfolding mo l(4) by (simp add: lookup_def)
  then have "group mo ''request_id'' = Inr (take (length f) (drop (length (flat segs)) (subject mo)))"
    by (simp add: group_lookup)
  then have r: "group mo ''request_id'' = Inr f" using s by simp
  have "line = flat segs @ f @ t" using g(1) l(1) by simp
  with g(2) l(2,3) s c r pl mo have "line = flat segs @ f @ t \<and> list_all2 seg_ok (map fst LINE_FIELDS) segs
           \<and> field_ok Token f \<and> list_all is_space t \<and> subject mo = line
           \<and> placed (found mo) 0 LINE_FIELDS segs
           \<and> list_all2 (caught mo) LINE_FIELDS segs \<and> group mo ''request_id'' = Inr f"
    by simp
  then show ?thesis by blast
qed


lemma caught_nth:
  assumes "list_all2 (caught mo) flds segs" "j < length flds" "flds ! j = (k, Some n)"
  shows "group mo n = Inr (captured k (fst (segs ! j)))"
proof -
  have "caught mo (flds ! j) (segs ! j)" using assms(1,2) by (rule list_all2_nthD)
  then show ?thesis using assms(3) by (cases "segs ! j") simp
qed

lemma seg_ok_nth:
  assumes "list_all2 seg_ok (map fst flds) segs" "j < length flds" "flds ! j = (k, nm)"
  shows "field_ok k (fst (segs ! j))"
proof -
  have "j < length (map fst flds)" using assms(2) by simp
  with assms(1) have "seg_ok (map fst flds ! j) (segs ! j)" by (rule list_all2_nthD)
  then show ?thesis using assms(2,3) by (cases "segs ! j") simp
qed

lemma LINE_FIELDS_nth:
  "length LINE_FIELDS = 17"
  "LINE_FIELDS ! 0 = (Token, Some ''remote_addr'')"
  "LINE_FIELDS ! 2 = (Token, Some ''remote_user'')"
  "LINE_FIELDS ! 3 = (Stamp, Some ''time_local'')"
  "LINE_FIELDS ! 4 = (Quoted, Some ''request'')"
  "LINE_FIELDS ! 5 = (Status, Some ''status'')"
  "LINE_FIELDS ! 6 = (Token, Some ''body_bytes_sent'')"
  "LINE_FIELDS ! 7 = (Quoted, Some ''http_referer'')"
  "LINE_FIELDS ! 8 = (Quoted, Some ''http_user_agent'')"
  "LINE_FIELDS ! 9 = (Token, Some ''request_length'')"
  "LINE_FIELDS ! 10 = (Token, Some ''request_time'')"
  "LINE_FIELDS ! 11 = (Upstream, Some ''upstream_name'')"
  "LINE_FIELDS ! 12 = (Upstream, Some ''upstream_other'')"
  "LINE_FIELDS ! 13 = (Token, Some ''upstream_addr'')"
  "LINE_FIELDS ! 14 = (Token, Some ''upstream_response_length'')"
  "LINE_FIELDS ! 15 = (Token, Some ''upstream_response_time'')"
  "LINE_FIELDS ! 16 = (Token, Some ''upstream_status'')"
  by (simp_all add: LINE_FIELDS_def)

lemma matched_groups:
  assumes "re_match LOG_RE line = Some mo"
  obtains segs f t where
    "line = flat segs @ f @ t" "list_all2 seg_ok (map fst LINE_FIELDS) segs"
    "field_ok Token f" "list_all is_space t" "subject mo = line"
    "placed (found mo) 0 LINE_FIELDS segs"
    "group mo ''upstream_name'' = Inr (fst (segs ! 11))"
    "group mo ''upstream_other'' = Inr (fst (segs ! 12))"
    "map (group mo) GROUP_NAMES = map Inr
       [fst (segs ! 0), fst (segs ! 2), butlast (tl (fst (segs ! 3))), butlast (tl (fst (segs ! 4))),
        fst (segs ! 5), fst (segs ! 6), butlast (tl (fst (segs ! 7))), butlast (tl (fst (segs ! 8))),
        fst (segs ! 9), fst (segs ! 10), fst (segs ! 11), fst (segs ! 12), fst (segs ! 13),
        fst (segs ! 14), fst (segs ! 15), fst (segs ! 16), f]"
proof -
  from LOG_RE_parts[OF assms] obtain segs f t where
    p: "line = flat segs @ f @ t" "list_all2 seg_ok (map fst LINE_FIELDS) segs"
       "field_ok Token f" "list_all is_space t" "subject mo = line"
       "placed (found mo) 0 LINE_FIELDS segs"
    and c: "list_all2 (caught mo) LINE_FIELDS segs"
    and r: "group mo ''request_id'' = Inr f"
    by blast
  note g = caught_nth[OF c, unfolded LINE_FIELDS_nth(1)]
  have gs:
    "group mo ''remote_addr'' = Inr (fst (segs ! 0))"
    "group mo ''remote_user'' = Inr (fst (segs ! 2))"
    "group mo ''time_local'' = Inr (butlast (tl (fst (segs ! 3))))"
    "group mo ''request'' = Inr (butlast (tl (fst (segs ! 4))))"
    "group mo ''status'' = Inr (fst (segs ! 5))"
    "group mo ''body_bytes_sent'' = Inr (fst (segs ! 6))"
    "group mo ''http_referer'' = Inr (butlast (tl (fst (segs ! 7))))"
    "group mo ''http_user_agent'' = Inr (butlast (tl (fst (segs ! 8))))"
    "group mo ''request_length'' = Inr (fst (segs ! 9))"
    "group mo ''request_time'' = Inr (fst (segs ! 10))"
    "group mo ''upstream_name'' = Inr (fst (segs ! 11))"
    "group mo ''upstream_other'' = Inr (fst (segs ! 12))"
    "group mo ''upstream_addr'' = Inr (fst (segs ! 13))"
    "group mo ''upstream_response_length'' = Inr (fst (segs ! 14))"
    "group mo ''upstream_response_time'' = Inr (fst (segs ! 15))"
    "group mo ''upstream_status'' = Inr (fst (segs ! 16))"
    using g[OF _ LINE_FIELDS_nth(2)] g[OF _ LINE_FIELDS_nth(3)] g[OF _ LINE_FIELDS_nth(4)]
      g[OF _ LINE_FIELDS_nth(5)] g[OF _ LINE_FIELDS_nth(6)] g[OF _ LINE_FIELDS_nth(7)]
      g[OF _ LINE_FIELDS_nth(8)] g[OF _ LINE_FIELDS_nth(9)] g[OF _ LINE_FIELDS_nth(10)]
      g[OF _ LINE_FIELDS_nth(11)] g[OF _ LINE_FIELDS_nth(12)] g[OF _ LINE_FIELDS_nth(13)]
      g[OF _ LINE_FIELDS_nth(14)] g[OF _ LINE_FIELDS_nth(15)] g[OF _ LINE_FIELDS_nth(16)]
      g[OF _ LINE_FIELDS_nth(17)]
    by simp_all
  have "map (group mo) GROUP_NAMES = map Inr
       [fst (segs ! 0), fst (segs ! 2), butlast (tl (fst (segs ! 3))), butlast (tl (fst (segs ! 4))),
        fst (segs ! 5), fst (segs ! 6), butlast (tl (fst (segs ! 7))), butlast (tl (fst (segs ! 8))),
        fst (segs ! 9), fst (segs ! 10), fst (segs ! 11), fst (segs ! 12), fst (segs ! 13),
        fst (segs ! 14), fst (segs ! 15), fst (segs ! 16), f]"
    unfolding GROUP_NAMES_def list.map gs r by (rule refl)
  with p gs(11,12) show ?thesis by (intro that)
qed

section \<open>Whitespace-delimited fields\<close>

lemma ws_from_token:
  "list_all (\<lambda>c. \<not> is_space c) f \<Longrightarrow> ws_from cur (f @ r) = ws_from (cur @ f) r"
  by (induction f arbitrary: cur) simp_all

lemma ws_from_space_empty:
  "list_all is_space w \<Longrightarrow> ws_from [] (w @ r) = ws_from [] r"
  by (induction w) simp_all

lemma ws_from_space:
  "cur \<noteq> [] \<Longrightarrow> w \<noteq> [] \<Longrightarrow> list_all is_space w \<Longrightarrow> ws_from cur (w @ r) = cur # ws_from [] r"
  by (cases w) (simp_all add: ws_from_space_empty)

lemma ws_from_trailing:
  "cur \<noteq> [] \<Longrightarrow> list_all is_space t \<Longrightarrow> ws_from cur t = [cur]"
  using ws_from_space[of cur t "[]"] by (cases t) simp_all

lemma ws_from_flat:
  assumes "\<forall>seg \<in> set segs. tokenlike (fst seg) \<and> snd seg \<noteq> [] \<and> list_all is_space (snd seg)"
    and "tokenlike f" "list_all is_space t"
  shows "ws_from [] (flat segs @ f @ t) = map fst segs @ [f]"
  using assms(1)
proof (induction segs)
  case Nil
  then show ?case using assms(2,3) by (simp add: ws_from_token ws_from_trailing tokenlike_def)
next
  case (Cons seg segs)
  obtain g w where seg: "seg = (g, w)" by (cases seg)
  have "ws_from [] (g @ w @ flat segs @ f @ t) = g # ws_from [] (flat segs @ f @ t)"
    using Cons.prems seg by (simp add: ws_from_token ws_from_space tokenlike_def)
  then show ?case using Cons seg by simp
qed

lemma drop_9_of_17:
  assumes "length (segs :: 'a list) = 17"
  shows "drop 9 segs = [segs ! 9, segs ! 10, segs ! 11, segs ! 12, segs ! 13, segs ! 14, segs ! 15, segs ! 16]"
  using assms by (simp add: Cons_nth_drop_Suc[symmetric])

lemma after_user_agent_parts:
  assumes "line = flat segs @ f @ t" "list_all2 seg_ok (map fst LINE_FIELDS) segs"
    "subject mo = line" "placed (found mo) 0 LINE_FIELDS segs"
  shows "after_user_agent mo = snd (segs ! 8) @ flat (drop 9 segs) @ f @ t"
proof -
  have len: "length segs = 17"
    using assms(2) by (simp add: list_all2_lengthD[symmetric] LINE_FIELDS_nth(1))
  let ?pre = "flat (take 8 segs)"
  let ?ua = "fst (segs ! 8)"
  have "field_ok Quoted ?ua"
    using seg_ok_nth[OF assms(2) _ LINE_FIELDS_nth(9)] by (simp add: LINE_FIELDS_nth(1))
  then have l2: "2 \<le> length ?ua" by auto
  have "lookup (found mo) ''http_user_agent'' =
      (Some (fst (span_of Quoted (0 + length ?pre) (length ?ua))),
       Some (snd (span_of Quoted (0 + length ?pre) (length ?ua))))"
    using assms(4) by (rule placed_nth) (simp_all add: LINE_FIELDS_nth len)
  then have "map_of (ends (found mo)) ''http_user_agent'' = Some (length ?pre + length ?ua - 1)"
    by (simp add: lookup_def)
  moreover have "length ?pre + length ?ua - 1 + 1 = length ?pre + length ?ua" using l2 by arith
  ultimately have "after_user_agent mo = drop (length ?pre + length ?ua) line"
    using assms(3) by (simp add: after_user_agent_def del: One_nat_def)
  also have "line = ?pre @ ?ua @ snd (segs ! 8) @ flat (drop 9 segs) @ f @ t"
    using assms(1) flat_split[of 8 segs] len by simp
  also have "drop (length ?pre + length ?ua) \<dots> = snd (segs ! 8) @ flat (drop 9 segs) @ f @ t"
    by simp
  finally show ?thesis .
qed

section \<open>The concrete inputs, evaluated\<close>

lemmas eval_defs = LOG_RE_def grp_def no_marks_def is_space_def is_digit_def dec_def re_match_def

lemma example_match: "re_match LOG_RE EXAMPLE_LINE = Some EXAMPLE_MATCH"
  by (simp add: eval_defs EXAMPLE_LINE_def EXAMPLE_MATCH_def)

lemma example_groups:
  "map (group EXAMPLE_MATCH) GROUP_NAMES = map Inr
     [''127.0.0.1'', ''-'', ''10/Oct/2023:13:55:36 +0000'', ''GET /index.html HTTP/1.1'', ''200'', ''612'',
      ''-'', ''curl/7.68.0'', ''123'', ''0.002'', ''[-]'', ''[-]'', ''-'', ''-'', ''-'', ''-'', ''abc123'']"
  by (simp add: GROUP_NAMES_def group_def EXAMPLE_MATCH_def EXAMPLE_LINE_def)

lemma example_request:
  "group EXAMPLE_MATCH ''request'' = Inr ''GET /index.html HTTP/1.1''"
  "group EXAMPLE_MATCH ''status'' = Inr ''200''"
  "group EXAMPLE_MATCH ''request_id'' = Inr ''abc123''"
  by (simp_all add: group_def EXAMPLE_MATCH_def EXAMPLE_LINE_def)

lemma example_split:
  "split_request ''GET /index.html HTTP/1.1'' = (''GET'', ''/index.html'', ''HTTP/1.1'')"
  by (simp add: split_request_def str_split.simps)

lemma example_upstream:
  "group EXAMPLE_MATCH ''upstream_name'' = Inr ''[-]''"
  "group EXAMPLE_MATCH ''upstream_other'' = Inr ''[-]''"
  by (simp_all add: group_def EXAMPLE_MATCH_def EXAMPLE_LINE_def)

lemma example_after_user_agent:
  "ws_fields (after_user_agent EXAMPLE_MATCH) = [''123'', ''0.002'', ''[-]'', ''[-]'', ''-'', ''-'', ''-'', ''-'', ''abc123'']"
  by (simp add: after_user_agent_def ws_fields_def EXAMPLE_MATCH_def EXAMPLE_LINE_def is_space_def)

lemma short_match: "re_match LOG_RE SHORT_LINE = Some SHORT_MATCH"
  by (simp add: eval_defs SHORT_LINE_def SHORT_MATCH_def)

lemma short_request: "group SHORT_MATCH ''request'' = Inr ''PING''"
  by (simp add: group_def SHORT_MATCH_def SHORT_LINE_def)

lemma short_split: "split_request ''PING'' = (''PING'', [], [])"
  by (simp add: split_request_def str_split.simps)

lemma short_after_user_agent:
  "ws_fields (after_user_agent SHORT_MATCH) = [''5'', ''0.000'', ''[]'', ''[a'', ''b]'', ''10.0.0.9:80'', ''0'', ''0.001'', ''204'', ''r1'']"
  by (simp add: after_user_agent_def ws_fields_def SHORT_MATCH_def SHORT_LINE_def is_space_def)

lemma junk_no_match: "re_match LOG_RE JUNK_LINE = None"
  by (simp add: eval_defs JUNK_LINE_def)





section \<open>The stored file is refused\<close>

text \<open>
  The first \<open>writer.writerow\<close> statement, at column 0, closes the body of \<open>main\<close>;
  the \<open>for\<close> statement of line 83, at column 8, is then an indented statement where
  no block was opened. So no run of the stored file executes a statement of it.
\<close>

lemma stored_layout: "check_layout 0 [] None STORED_LINES = Some (UnexpectedIndent 83)"
  by (simp add: STORED_LINES_def)

text \<open>
  The two statements are the only faults of the layout. With the first at the column of
  the \<open>with\<close> block, the second, at column 0, closes all blocks, and the statement of
  line 117 after it is an unexpected indent; with the second at the column of the loop
  body as well, the layout is accepted.
\<close>

lemma second_statement_layout:
  "check_layout 0 [] None (at_column 61 8 STORED_LINES) = Some (UnexpectedIndent 117)"
  by (simp add: STORED_LINES_def at_column_def)

lemma indented_layout_accepted:
  "check_layout 0 [] None (at_column 95 12 (at_column 61 8 STORED_LINES)) = None"
  by (simp add: STORED_LINES_def at_column_def)

lemma run_stored:
  "run_script STORED_LINES body a st = (Some (IndentationError (UnexpectedIndent 83)), st)"
  by (simp add: run_script_def stored_layout)

lemma start_simps:
  "texts (world (start text r)) ''access.log'' = Some text"
  "csvs (world (start text r)) p = None"
  "console (start text r) = []"
  "invoked (start text r) = []"
  by (simp_all add: start_def)

section \<open>The claims\<close>

text \<open>
  C1. A line that matches the grammar is to give exactly one record of 19 fields. The
  example line matches the pattern, but a run of the stored file on a log that holds it
  ends with \<open>IndentationError\<close> for line 83 and leaves the world as it was: there is
  no output file, so no record for the line.
\<close>

theorem matched_line_never_written:
  "re_match LOG_RE EXAMPLE_LINE = Some EXAMPLE_MATCH
   \<and> fst (run_script STORED_LINES body plain_args (start EXAMPLE_LINE r))
       = Some (IndentationError (UnexpectedIndent 83))
   \<and> snd (run_script STORED_LINES body plain_args (start EXAMPLE_LINE r)) = start EXAMPLE_LINE r
   \<and> csvs (world (snd (run_script STORED_LINES body plain_args (start EXAMPLE_LINE r)))) (out plain_args) = None"
  by (simp add: example_match run_stored start_simps)

text \<open>
  C2. The request of a matched line is to be split into at most three tokens, a missing
  one being the empty string. The statements of lines 92 and 93 do that: for the request
  \<open>PING\<close> of the matched line below they give \<open>PING\<close> and two empty strings. A
  run of the stored file does not reach them: it ends with \<open>IndentationError\<close> for
  line 83, and there is no output file to hold method, path and protocol.
\<close>

theorem request_split_never_reached:
  "re_match LOG_RE SHORT_LINE = Some SHORT_MATCH
   \<and> group SHORT_MATCH ''request'' = Inr ''PING''
   \<and> split_request ''PING'' = (''PING'', [], [])
   \<and> fst (run_script STORED_LINES body plain_args (start SHORT_LINE r))
       = Some (IndentationError (UnexpectedIndent 83))
   \<and> csvs (world (snd (run_script STORED_LINES body plain_args (start SHORT_LINE r)))) (out plain_args) = None"
  by (simp add: short_match short_request short_split run_stored start_simps)

text \<open>
  C3. The example line of the specification matches the pattern; its groups hold the
  request \<open>GET /index.html HTTP/1.1\<close>, which lines 92 and 93 split into \<open>GET\<close>,
  \<open>/index.html\<close> and \<open>HTTP/1.1\<close>, the status \<open>200\<close> and the request id
  \<open>abc123\<close>. It does not parse to a record: a run of the stored file on a log that
  holds the line ends with \<open>IndentationError\<close> for line 83 and writes nothing.
\<close>

theorem example_line_never_parsed:
  "re_match LOG_RE EXAMPLE_LINE = Some EXAMPLE_MATCH
   \<and> group EXAMPLE_MATCH ''request'' = Inr ''GET /index.html HTTP/1.1''
   \<and> split_request ''GET /index.html HTTP/1.1'' = (''GET'', ''/index.html'', ''HTTP/1.1'')
   \<and> group EXAMPLE_MATCH ''status'' = Inr ''200''
   \<and> group EXAMPLE_MATCH ''request_id'' = Inr ''abc123''
   \<and> fst (run_script STORED_LINES body plain_args (start (EXAMPLE_LINE @ [CHR 0x0A]) r))
       = Some (IndentationError (UnexpectedIndent 83))
   \<and> csvs (world (snd (run_script STORED_LINES body plain_args (start (EXAMPLE_LINE @ [CHR 0x0A]) r))))
         (out plain_args) = None"
  by (simp add: example_match example_request example_split run_stored start_simps)

text \<open>
  C4. A line that does not match the grammar is to be passed over without an error. The
  line below does not match the pattern, and a run of the stored file on a log that
  holds it raises: it ends with \<open>IndentationError\<close> for line 83, before a line is
  read.
\<close>

theorem unmatched_line_run_raises:
  "re_match LOG_RE JUNK_LINE = None
   \<and> fst (run_script STORED_LINES body plain_args (start JUNK_LINE r))
       = Some (IndentationError (UnexpectedIndent 83))
   \<and> fst (run_script STORED_LINES body plain_args (start JUNK_LINE r)) \<noteq> None"
  by (simp add: junk_no_match run_stored)

text \<open>
  C5. An empty log is to give a CSV file that holds the header alone and a reported count
  of 0. A run of the stored file on an empty log ends with \<open>IndentationError\<close> for
  line 83: no output file is written, and nothing is reported.
\<close>

theorem empty_log_no_csv:
  "texts (world (start [] r)) (log plain_args) = Some []
   \<and> fst (run_script STORED_LINES body plain_args (start [] r))
       = Some (IndentationError (UnexpectedIndent 83))
   \<and> csvs (world (snd (run_script STORED_LINES body plain_args (start [] r)))) (out plain_args) = None
   \<and> console (snd (run_script STORED_LINES body plain_args (start [] r))) = []"
  by (simp add: run_stored start_simps plain_args_def)




text \<open>
  C7, as stated, fails: the example line has 9 whitespace-delimited fields after the
  quoted user agent, not 19, and matches; a line with a space inside a bracketed upstream
  field has 10 and matches.
\<close>

theorem nineteen_fields_counterexample:
  "re_match LOG_RE EXAMPLE_LINE = Some EXAMPLE_MATCH
   \<and> length (ws_fields (after_user_agent EXAMPLE_MATCH)) = 9
   \<and> re_match LOG_RE SHORT_LINE = Some SHORT_MATCH
   \<and> length (ws_fields (after_user_agent SHORT_MATCH)) = 10"
  by (simp add: example_match example_after_user_agent short_match short_after_user_agent)

text \<open>
  C7, amended. When a line matches and its two bracketed upstream fields hold no
  whitespace, the whitespace-delimited fields after the quoted user agent are exactly
  the values of the last 9 of the 17 groups of the pattern: request length, request
  time, the two upstream fields, upstream address, response length, response time,
  upstream status and request id.
\<close>

theorem nine_fields_after_user_agent:
  assumes "re_match LOG_RE line = Some mo"
    and "group mo ''upstream_name'' = Inr un" "group mo ''upstream_other'' = Inr uo"
    and "list_all (\<lambda>c. \<not> is_space c) (un @ uo)"
  shows "\<exists>vals. map (group mo) GROUP_NAMES = map Inr vals
           \<and> ws_fields (after_user_agent mo) = drop 8 vals
           \<and> length (ws_fields (after_user_agent mo)) = 9"
proof -
  from assms(1) obtain segs f t where
    p: "line = flat segs @ f @ t" "list_all2 seg_ok (map fst LINE_FIELDS) segs"
       "field_ok Token f" "list_all is_space t" "subject mo = line"
       "placed (found mo) 0 LINE_FIELDS segs"
    and g: "group mo ''upstream_name'' = Inr (fst (segs ! 11))"
           "group mo ''upstream_other'' = Inr (fst (segs ! 12))"
    and r: "map (group mo) GROUP_NAMES = map Inr
       [fst (segs ! 0), fst (segs ! 2), butlast (tl (fst (segs ! 3))), butlast (tl (fst (segs ! 4))),
        fst (segs ! 5), fst (segs ! 6), butlast (tl (fst (segs ! 7))), butlast (tl (fst (segs ! 8))),
        fst (segs ! 9), fst (segs ! 10), fst (segs ! 11), fst (segs ! 12), fst (segs ! 13),
        fst (segs ! 14), fst (segs ! 15), fst (segs ! 16), f]"
    by (rule matched_groups)
  let ?vals = "[fst (segs ! 0), fst (segs ! 2), butlast (tl (fst (segs ! 3))), butlast (tl (fst (segs ! 4))),
        fst (segs ! 5), fst (segs ! 6), butlast (tl (fst (segs ! 7))), butlast (tl (fst (segs ! 8))),
        fst (segs ! 9), fst (segs ! 10), fst (segs ! 11), fst (segs ! 12), fst (segs ! 13),
        fst (segs ! 14), fst (segs ! 15), fst (segs ! 16), f]"
  have len: "length segs = 17"
    using p(2) by (simp add: list_all2_lengthD[symmetric] LINE_FIELDS_nth(1))
  note ok = seg_ok_nth[OF p(2), unfolded LINE_FIELDS_nth(1)]
  have sp: "\<And>j. j < 17 \<Longrightarrow> snd (segs ! j) \<noteq> [] \<and> list_all is_space (snd (segs ! j))"
  proof -
    fix j :: nat assume j: "j < 17"
    then have "j < length (map fst LINE_FIELDS)" by (simp add: LINE_FIELDS_nth(1))
    with p(2) have "seg_ok (map fst LINE_FIELDS ! j) (segs ! j)" by (rule list_all2_nthD)
    then show "snd (segs ! j) \<noteq> [] \<and> list_all is_space (snd (segs ! j))"
      by (cases "segs ! j") simp
  qed
  have un: "fst (segs ! 11) = un" "fst (segs ! 12) = uo" using g assms(2,3) by simp_all
  have up: "field_ok Upstream (fst (segs ! 11))" "field_ok Upstream (fst (segs ! 12))"
    using ok[OF _ LINE_FIELDS_nth(12)] ok[OF _ LINE_FIELDS_nth(13)] by simp_all
  have tk: "tokenlike (fst (segs ! 9))" "tokenlike (fst (segs ! 10))"
    "tokenlike (fst (segs ! 13))" "tokenlike (fst (segs ! 14))"
    "tokenlike (fst (segs ! 15))" "tokenlike (fst (segs ! 16))" "tokenlike f"
    using ok[OF _ LINE_FIELDS_nth(10)] ok[OF _ LINE_FIELDS_nth(11)] ok[OF _ LINE_FIELDS_nth(14)]
      ok[OF _ LINE_FIELDS_nth(15)] ok[OF _ LINE_FIELDS_nth(16)] ok[OF _ LINE_FIELDS_nth(17)] p(3)
    by (simp_all add: tokenlike_def)
  have tu: "tokenlike (fst (segs ! 11))" "tokenlike (fst (segs ! 12))"
    using up un assms(4) by (auto simp: tokenlike_def)
  have d: "drop 9 segs = [segs ! 9, segs ! 10, segs ! 11, segs ! 12, segs ! 13, segs ! 14, segs ! 15, segs ! 16]"
    using len by (rule drop_9_of_17)
  have all: "\<forall>seg \<in> set (drop 9 segs). tokenlike (fst seg) \<and> snd seg \<noteq> [] \<and> list_all is_space (snd seg)"
    unfolding d using tk tu sp by simp
  have "after_user_agent mo = snd (segs ! 8) @ flat (drop 9 segs) @ f @ t"
    using p(1,2,5,6) by (rule after_user_agent_parts)
  then have "ws_fields (after_user_agent mo) = ws_from [] (flat (drop 9 segs) @ f @ t)"
    using sp[of 8] by (simp add: ws_fields_def ws_from_space_empty)
  also have "\<dots> = map fst (drop 9 segs) @ [f]"
    using all tk(7) p(4) by (rule ws_from_flat)
  also have "\<dots> = drop 8 ?vals"
    unfolding d by simp
  finally have w: "ws_fields (after_user_agent mo) = drop 8 ?vals" .
  then have "length (ws_fields (after_user_agent mo)) = 9" by simp
  with r w show ?thesis by blast
qed

theorem nine_fields_after_user_agent_witness:
  "re_match LOG_RE EXAMPLE_LINE = Some EXAMPLE_MATCH
   \<and> group EXAMPLE_MATCH ''upstream_name'' = Inr ''[-]''
   \<and> group EXAMPLE_MATCH ''upstream_other'' = Inr ''[-]''
   \<and> list_all (\<lambda>c. \<not> is_space c) (''[-]'' @ ''[-]'')
   \<and> (\<exists>vals. map (group EXAMPLE_MATCH) GROUP_NAMES = map Inr vals
           \<and> ws_fields (after_user_agent EXAMPLE_MATCH) = drop 8 vals
           \<and> length (ws_fields (after_user_agent EXAMPLE_MATCH)) = 9)"
proof -
  have h: "list_all (\<lambda>c. \<not> is_space c) (''[-]'' @ ''[-]'')" by (simp add: is_space_def)
  from nine_fields_after_user_agent[OF example_match example_upstream h] show ?thesis
    using h by (simp add: example_match example_upstream)
qed

text \<open>
  C9. With commit mode on and a staged output that does not differ from the last commit,
  the program is to report that there is nothing to commit. A run of the stored file in
  commit mode, whatever the repository, ends with \<open>IndentationError\<close> for line 83: it
  reports nothing and runs no command, the staged-diff check included.
\<close>

theorem commit_mode_reports_nothing:
  "commit commit_args
   \<and> fst (run_script STORED_LINES body commit_args (start EXAMPLE_LINE r))
       = Some (IndentationError (UnexpectedIndent 83))
   \<and> console (snd (run_script STORED_LINES body commit_args (start EXAMPLE_LINE r))) = []
   \<and> NoChanges \<notin> set (console (snd (run_script STORED_LINES body commit_args (start EXAMPLE_LINE r))))
   \<and> invoked (snd (run_script STORED_LINES body commit_args (start EXAMPLE_LINE r))) = []"
  by (simp add: run_stored start_simps commit_args_def)

text \<open>
  C10. The values of the columns \<open>upstream_name\<close> and \<open>upstream_other\<close> are to
  keep the square brackets. The groups of these names do: for the example line, whose
  upstream fields are written \<open>[-]\<close>, both hold the three characters \<open>[-]\<close>. They
  reach no column: a run of the stored file on a log that holds the line ends with
  \<open>IndentationError\<close> for line 83, and there is no output file.
\<close>

theorem upstream_columns_never_written:
  "re_match LOG_RE EXAMPLE_LINE = Some EXAMPLE_MATCH
   \<and> group EXAMPLE_MATCH ''upstream_name'' = Inr ''[-]''
   \<and> group EXAMPLE_MATCH ''upstream_other'' = Inr ''[-]''
   \<and> length ''[-]'' = 3
   \<and> fst (run_script STORED_LINES body plain_args (start EXAMPLE_LINE r))
       = Some (IndentationError (UnexpectedIndent 83))
   \<and> csvs (world (snd (run_script STORED_LINES body plain_args (start EXAMPLE_LINE r)))) ''out.csv'' = None"
  by (simp add: example_match example_upstream run_stored start_simps)

end
